theory Spec2Isabelle
  imports Complex_Main
begin

section \<open>JavaScript numbers\<close>

text \<open>
  The numbers of \<^verbatim>\<open>face.js\<close> are IEEE 754 doubles. A finite double is modelled by the
  real it denotes (rounding and overflow to infinity are abstracted away); the special
  values are kept, with the arithmetic IEEE 754 gives them: \<open>Infinity - Infinity\<close>,
  \<open>0 * Infinity\<close> and \<open>0 / 0\<close> are \<open>NaN\<close>, \<open>NaN\<close> is absorbing, and every comparison
  with \<open>NaN\<close> is false. The two zeros are identified with the positive one, so that
  a non-zero number divided by zero has the sign of the numerator (the only division
  by zero of \<^verbatim>\<open>face.js\<close> has \<open>Math.abs(...)\<close> below the bar, which is \<open>+0\<close>).
\<close>

datatype jsnum = Fin real | PInf | NInf | NaN

fun js_neg :: "jsnum \<Rightarrow> jsnum" where
  "js_neg (Fin a) = Fin (- a)"
| "js_neg PInf = NInf"
| "js_neg NInf = PInf"
| "js_neg NaN = NaN"

fun js_add :: "jsnum \<Rightarrow> jsnum \<Rightarrow> jsnum" where
  "js_add (Fin a) (Fin b) = Fin (a + b)"
| "js_add (Fin a) PInf = PInf"
| "js_add (Fin a) NInf = NInf"
| "js_add PInf (Fin b) = PInf"
| "js_add PInf PInf = PInf"
| "js_add PInf NInf = NaN"
| "js_add NInf (Fin b) = NInf"
| "js_add NInf PInf = NaN"
| "js_add NInf NInf = NInf"
| "js_add NaN b = NaN"
| "js_add a NaN = NaN"

definition js_sub :: "jsnum \<Rightarrow> jsnum \<Rightarrow> jsnum" where
  "js_sub a b = js_add a (js_neg b)"

fun js_mul :: "jsnum \<Rightarrow> jsnum \<Rightarrow> jsnum" where
  "js_mul (Fin a) (Fin b) = Fin (a * b)"
| "js_mul (Fin a) PInf = (if a = 0 then NaN else if 0 < a then PInf else NInf)"
| "js_mul (Fin a) NInf = (if a = 0 then NaN else if 0 < a then NInf else PInf)"
| "js_mul PInf (Fin b) = (if b = 0 then NaN else if 0 < b then PInf else NInf)"
| "js_mul NInf (Fin b) = (if b = 0 then NaN else if 0 < b then NInf else PInf)"
| "js_mul PInf PInf = PInf"
| "js_mul PInf NInf = NInf"
| "js_mul NInf PInf = NInf"
| "js_mul NInf NInf = PInf"
| "js_mul NaN b = NaN"
| "js_mul a NaN = NaN"

fun js_div :: "jsnum \<Rightarrow> jsnum \<Rightarrow> jsnum" where
  "js_div (Fin a) (Fin b) =
     (if b = 0 then (if a = 0 then NaN else if 0 < a then PInf else NInf)
      else Fin (a / b))"
| "js_div (Fin a) PInf = Fin 0"
| "js_div (Fin a) NInf = Fin 0"
| "js_div PInf (Fin b) = (if 0 \<le> b then PInf else NInf)"
| "js_div NInf (Fin b) = (if 0 \<le> b then NInf else PInf)"
| "js_div PInf PInf = NaN"
| "js_div PInf NInf = NaN"
| "js_div NInf PInf = NaN"
| "js_div NInf NInf = NaN"
| "js_div NaN b = NaN"
| "js_div a NaN = NaN"

text \<open>\<^verbatim>\<open>Math.abs\<close> and \<^verbatim>\<open>Math.sqrt\<close>.\<close>

fun js_abs :: "jsnum \<Rightarrow> jsnum" where
  "js_abs (Fin a) = Fin \<bar>a\<bar>"
| "js_abs PInf = PInf"
| "js_abs NInf = PInf"
| "js_abs NaN = NaN"

fun js_sqrt :: "jsnum \<Rightarrow> jsnum" where
  "js_sqrt (Fin a) = (if a < 0 then NaN else Fin (sqrt a))"
| "js_sqrt PInf = PInf"
| "js_sqrt NInf = NaN"
| "js_sqrt NaN = NaN"

text \<open>The comparisons \<^verbatim>\<open><=\<close> and \<^verbatim>\<open><\<close> on numbers: false as soon as one side is \<open>NaN\<close>.\<close>

fun js_le :: "jsnum \<Rightarrow> jsnum \<Rightarrow> bool" where
  "js_le (Fin a) (Fin b) = (a \<le> b)"
| "js_le (Fin a) PInf = True"
| "js_le (Fin a) NInf = False"
| "js_le PInf (Fin b) = False"
| "js_le PInf PInf = True"
| "js_le PInf NInf = False"
| "js_le NInf (Fin b) = True"
| "js_le NInf PInf = True"
| "js_le NInf NInf = True"
| "js_le NaN b = False"
| "js_le a NaN = False"

fun js_lt :: "jsnum \<Rightarrow> jsnum \<Rightarrow> bool" where
  "js_lt (Fin a) (Fin b) = (a < b)"
| "js_lt (Fin a) PInf = True"
| "js_lt (Fin a) NInf = False"
| "js_lt PInf (Fin b) = False"
| "js_lt PInf PInf = False"
| "js_lt PInf NInf = False"
| "js_lt NInf (Fin b) = True"
| "js_lt NInf PInf = True"
| "js_lt NInf NInf = False"
| "js_lt NaN b = False"
| "js_lt a NaN = False"

text \<open>
  \<^verbatim>\<open>Math.min(...vs)\<close> and \<^verbatim>\<open>Math.max(...vs)\<close>: \<open>NaN\<close> as soon as one argument is,
  \<open>Infinity\<close> and \<open>-Infinity\<close> on no argument.
\<close>

fun js_min2 :: "jsnum \<Rightarrow> jsnum \<Rightarrow> jsnum" where
  "js_min2 NaN b = NaN"
| "js_min2 a NaN = NaN"
| "js_min2 a b = (if js_le a b then a else b)"

fun js_max2 :: "jsnum \<Rightarrow> jsnum \<Rightarrow> jsnum" where
  "js_max2 NaN b = NaN"
| "js_max2 a NaN = NaN"
| "js_max2 a b = (if js_le a b then b else a)"

definition Math_min :: "jsnum list \<Rightarrow> jsnum" where
  "Math_min vs = foldl js_min2 PInf vs"

definition Math_max :: "jsnum list \<Rightarrow> jsnum" where
  "Math_max vs = foldl js_max2 NInf vs"

text \<open>
  A value that may be \<^verbatim>\<open>undefined\<close> is an option; in an arithmetic or comparison
  position \<^verbatim>\<open>undefined\<close> converts to \<open>NaN\<close>.
\<close>

fun to_number :: "jsnum option \<Rightarrow> jsnum" where
  "to_number None = NaN"
| "to_number (Some v) = v"

text \<open>An object reference that may be \<^verbatim>\<open>undefined\<close> or \<^verbatim>\<open>null\<close> (the falsy references).\<close>

datatype 'a ref = Undefined | Null | Obj 'a

datatype js_error =
    ShapeMismatch   \<comment> \<open>\<^verbatim>\<open>Error('Unable to compare between different face features!')\<close>\<close>
  | TypeError       \<comment> \<open>reading a property of \<^verbatim>\<open>undefined\<close>\<close>
  | DetectorError   \<comment> \<open>the detector's promise rejected\<close>

section \<open>Points\<close>

text \<open>
  A \<^verbatim>\<open>Point\<close> has an optional name and the coordinates \<open>x\<close>, \<open>y\<close>, \<open>z\<close>; \<open>normalize\<close>
  keeps in \<open>orig\<close> the value each coordinate had before its latest update.
\<close>

record point =
  pname :: "string option"
  px :: jsnum
  py :: jsnum
  pz :: jsnum
  orig_x :: "jsnum option"
  orig_y :: "jsnum option"
  orig_z :: "jsnum option"

record keypoint =
  kname :: "string option"
  kx :: jsnum
  ky :: jsnum
  kz :: jsnum

definition Point_from :: "keypoint \<Rightarrow> point" where
  "Point_from k = \<lparr>pname = kname k, px = kx k, py = ky k, pz = kz k,
     orig_x = None, orig_y = None, orig_z = None\<rparr>"

definition Point_flatten :: "point \<Rightarrow> jsnum list" where
  "Point_flatten p = [px p, py p, pz p]"

text \<open>The arguments of \<open>normalize\<close>; an argument that is \<^verbatim>\<open>undefined\<close> or \<^verbatim>\<open>null\<close> is skipped.\<close>

record norm_args =
  xMin :: "jsnum option"
  yMin :: "jsnum option"
  zMin :: "jsnum option"
  xScale :: "jsnum option"
  yScale :: "jsnum option"
  zScale :: "jsnum option"

datatype axis = AxisX | AxisY | AxisZ

datatype arith_op = OpAdd | OpSub | OpMul | OpDiv

fun apply_arith :: "arith_op \<Rightarrow> jsnum \<Rightarrow> jsnum \<Rightarrow> jsnum" where
  "apply_arith OpAdd a v = js_add a v"
| "apply_arith OpSub a v = js_sub a v"
| "apply_arith OpMul a v = js_mul a v"
| "apply_arith OpDiv a v = js_div a v"

text \<open>The inner function \<open>f(k, v, op)\<close> of \<open>Point.normalize\<close>.\<close>

fun normalize_step :: "axis \<times> jsnum option \<times> arith_op \<Rightarrow> point \<Rightarrow> point" where
  "normalize_step (k, None, opr) p = p"
| "normalize_step (AxisX, Some v, opr) p =
     p\<lparr>orig_x := Some (px p), px := apply_arith opr (px p) v\<rparr>"
| "normalize_step (AxisY, Some v, opr) p =
     p\<lparr>orig_y := Some (py p), py := apply_arith opr (py p) v\<rparr>"
| "normalize_step (AxisZ, Some v, opr) p =
     p\<lparr>orig_z := Some (pz p), pz := apply_arith opr (pz p) v\<rparr>"

definition Point_normalize :: "norm_args \<Rightarrow> point \<Rightarrow> point" where
  "Point_normalize args p =
     fold normalize_step
       [(AxisX, xMin args, OpSub), (AxisY, yMin args, OpSub), (AxisZ, zMin args, OpSub),
        (AxisX, xScale args, OpMul), (AxisY, yScale args, OpMul), (AxisZ, zScale args, OpMul)]
       p"

text \<open>The class \<open>Points\<close>: a list of points.\<close>

definition Points_from :: "keypoint list \<Rightarrow> point list" where
  "Points_from ks = map Point_from ks"

definition getNamed :: "point list \<Rightarrow> string \<Rightarrow> point list" where
  "getNamed ps n = filter (\<lambda>p. pname p = Some n) ps"

definition getMin_z :: "point list \<Rightarrow> jsnum" where
  "getMin_z ps = Math_min (map pz ps)"

definition getMax_z :: "point list \<Rightarrow> jsnum" where
  "getMax_z ps = Math_max (map pz ps)"

definition Points_flatten :: "point list \<Rightarrow> jsnum list" where
  "Points_flatten ps = concat (map Point_flatten ps)"

definition Points_normalize :: "norm_args \<Rightarrow> point list \<Rightarrow> point list" where
  "Points_normalize args ps = map (Point_normalize args) ps"

section \<open>Face landmarks\<close>

record box =
  box_xMin :: jsnum
  box_yMin :: jsnum
  box_width :: jsnum
  box_height :: jsnum

text \<open>What the detector returns for one face: the bounding box and the keypoints.\<close>

record detected_face =
  df_box :: box
  df_keypoints :: "keypoint list"

text \<open>
  A \<open>FaceLandmark\<close>: the box, the normalized points, and for each marker with at least
  one point of that name the points of the group (\<open>this[key]\<close>), in the order of
  \<open>markers\<close>.
\<close>

record landmark =
  lm_box :: box
  lm_points :: "point list"
  lm_groups :: "(string \<times> point list) list"

definition markers :: "(string \<times> bool) list" where
  "markers =
     [(''faceOval'', False), (''leftEye'', True), (''leftEyebrow'', False),
      (''leftIris'', True), (''lips'', True), (''rightEye'', True),
      (''rightEyebrow'', False), (''rightIris'', True)]"

definition scale :: jsnum where
  "scale = Fin 1"

text \<open>
  The argument object of the constructor's call of \<open>normalize\<close>, evaluated on the
  points as \<open>Points.from\<close> built them, before any of them is normalized.
\<close>

definition landmark_args :: "box \<Rightarrow> point list \<Rightarrow> norm_args" where
  "landmark_args b ps =
     \<lparr>xMin = Some (box_xMin b),
      yMin = Some (box_yMin b),
      zMin = Some (getMin_z ps),
      xScale = Some (js_div scale (box_width b)),
      yScale = Some (js_div scale (box_height b)),
      zScale = Some (js_div scale (js_abs (js_sub (getMax_z ps) (getMin_z ps))))\<rparr>"

definition FaceLandmark :: "detected_face \<Rightarrow> landmark" where
  "FaceLandmark d =
     (let ps0 = Points_from (df_keypoints d);
          ps = Points_normalize (landmark_args (df_box d) ps0) ps0
      in \<lparr>lm_box = df_box d,
          lm_points = ps,
          lm_groups = filter (\<lambda>(key, named). named \<noteq> [])
                        (map (\<lambda>(key, isFeature). (key, getNamed ps key)) markers)\<rparr>)"

section \<open>Face features\<close>

text \<open>
  A \<open>FaceFeatures\<close> object: its own properties in insertion order, each a group name
  with the flat array of its numbers. The keys are group names, never array indices,
  so \<open>Object.keys\<close> lists them in insertion order.
\<close>

type_synonym features = "(string \<times> jsnum list) list"

text \<open>\<open>add(key, points)\<close>: an assignment to \<open>this[key]\<close>, which keeps the place of a key already there.\<close>

fun add :: "string \<Rightarrow> jsnum list \<Rightarrow> features \<Rightarrow> features" where
  "add key v [] = [(key, v)]"
| "add key v ((k, w) # fs) = (if k = key then (k, v) # fs else (k, w) # add key v fs)"

definition FaceFeatures_from :: "(string \<times> jsnum list) list \<Rightarrow> features" where
  "FaceFeatures_from data = fold (\<lambda>(k, v) feat. add k v feat) data []"

text \<open>\<open>getFeatures\<close>: the groups of the feature markers, flattened.\<close>

definition getFeatures :: "landmark \<Rightarrow> features" where
  "getFeatures lm =
     fold (\<lambda>(key, isFeature) feat.
             case map_of (lm_groups lm) key of
               Some ps \<Rightarrow> (if isFeature then add key (Points_flatten ps) feat else feat)
             | None \<Rightarrow> feat)
       markers []"

text \<open>Reading \<open>a[k]\<close> in an array: \<^verbatim>\<open>undefined\<close> beyond its end.\<close>

definition at_index :: "'a list \<Rightarrow> nat \<Rightarrow> 'a option" where
  "at_index xs k = (if k < length xs then Some (xs ! k) else None)"

text \<open>
  The distance of one group. \<open>this[feature].map((v, k) => Point.from({x: v, y: other[k]}))\<close>
  pairs each number with the one at the same index of the other array (\<^verbatim>\<open>undefined\<close>
  when the other array is shorter), \<open>p.x - p.y\<close> subtracts, and \<open>reduce\<close> sums the squares
  from 0, left to right.
\<close>

definition pairs :: "jsnum list \<Rightarrow> jsnum list \<Rightarrow> (jsnum \<times> jsnum option) list" where
  "pairs mine other = map (\<lambda>k. (mine ! k, at_index other k)) [0..<length mine]"

definition group_distance :: "jsnum list \<Rightarrow> jsnum list \<Rightarrow> jsnum" where
  "group_distance mine other =
     js_sqrt (foldl (\<lambda>a b. js_add a (js_mul b b)) (Fin 0)
                (map (\<lambda>(x, y). js_sub x (to_number y)) (pairs mine other)))"

text \<open>
  The loop over \<open>Object.keys(this)\<close> that fills \<open>values\<close>. When the other object has
  no property of that name, \<open>features[feature][k]\<close> reads a property of \<^verbatim>\<open>undefined\<close>
  and throws, unless the own array is empty and the callback is never called.
\<close>

fun group_values :: "features \<Rightarrow> features \<Rightarrow> js_error + jsnum list" where
  "group_values [] other = Inr []"
| "group_values ((key, mine) # rest) other =
     (case map_of other key of
        None \<Rightarrow>
          (if mine = [] then
             (case group_values rest other of
                Inl e \<Rightarrow> Inl e
              | Inr vs \<Rightarrow> Inr (js_sqrt (Fin 0) # vs))
           else Inl TypeError)
      | Some theirs \<Rightarrow>
          (case group_values rest other of
             Inl e \<Rightarrow> Inl e
           | Inr vs \<Rightarrow> Inr (group_distance mine theirs # vs)))"

text \<open>
  \<open>distance(features)\<close>: \<^verbatim>\<open>undefined\<close> (\<open>Inr None\<close>) on a falsy argument, the error on
  different key counts, otherwise the sum of the group distances divided by their
  number.
\<close>

fun distance :: "features \<Rightarrow> features ref \<Rightarrow> js_error + jsnum option" where
  "distance this Undefined = Inr None"
| "distance this Null = Inr None"
| "distance this (Obj other) =
     (if length this \<noteq> length other then Inl ShapeMismatch
      else case group_values this other of
             Inl e \<Rightarrow> Inl e
           | Inr vs \<Rightarrow>
               Inr (Some (js_div (foldl js_add (Fin 0) vs) (Fin (real (length vs))))))"

text \<open>\<open>FaceLandmark.compare(face)\<close>.\<close>

fun FaceLandmark_compare :: "landmark \<Rightarrow> landmark ref \<Rightarrow> js_error + jsnum option" where
  "FaceLandmark_compare this (Obj face) = distance (getFeatures this) (Obj (getFeatures face))"
| "FaceLandmark_compare this Undefined = Inr None"
| "FaceLandmark_compare this Null = Inr None"

text \<open>
  \<open>find(featuresList, confidence = 0.075)\<close>: the loop over the entries of the list, with
  the running \<open>index\<close> and \<open>conf\<close> (both \<^verbatim>\<open>undefined\<close> at first). An error of \<open>distance\<close>
  leaves the loop.
\<close>

definition default_confidence :: jsnum where
  "default_confidence = Fin (75 / 1000)"

fun find_loop ::
  "features \<Rightarrow> jsnum \<Rightarrow> (nat \<times> features ref) list \<Rightarrow> nat option \<times> jsnum option
     \<Rightarrow> js_error + nat option \<times> jsnum option" where
  "find_loop this confidence [] (index, conf) = Inr (index, conf)"
| "find_loop this confidence ((idx, features) # rest) (index, conf) =
     (case distance this features of
        Inl e \<Rightarrow> Inl e
      | Inr dst \<Rightarrow>
          if js_le (to_number dst) confidence
               \<and> (conf = None \<or> js_lt (to_number dst) (to_number conf))
          then find_loop this confidence rest (Some idx, dst)
          else find_loop this confidence rest (index, conf))"

definition threshold :: "jsnum option \<Rightarrow> jsnum" where
  "threshold confidence = (case confidence of None \<Rightarrow> default_confidence | Some c \<Rightarrow> c)"

definition FaceFeatures_find ::
  "features \<Rightarrow> features ref list \<Rightarrow> jsnum option \<Rightarrow> js_error + nat option \<times> jsnum option" where
  "FaceFeatures_find this featuresList confidence =
     find_loop this (threshold confidence) (enumerate 0 featuresList) (None, None)"

section \<open>The worker\<close>

text \<open>
  A slot of \<open>work.items\<close>: nothing there (\<^verbatim>\<open>undefined\<close>), the \<^verbatim>\<open>null\<close> written when no
  face was found, raw image data (an object with \<open>type\<close> \<^verbatim>\<open>'Buffer'\<close> and the bytes in
  \<open>data\<close>), or the features computed earlier. Slots of any other kind are outside the
  model, and so are indices that are not integers.
\<close>

datatype item = Absent | NoFace | Raw "nat list" | Cached features

record work_obj =
  work_id :: string
  items :: "item list"
  feature :: "(string \<times> jsnum list) list"

record matched =
  label :: "int option"
  confidence :: jsnum

datatype message =
    Update int item                    \<comment> \<open>\<open>{cmd: 'update', index, data}\<close>\<close>
  | Done work_obj "matched option"     \<comment> \<open>\<open>{cmd: 'done', work, matched}\<close>\<close>

text \<open>
  What the worker does to the outside, in order: a call of the detector on image
  bytes, a message to the host, an error written to the log. (The informational log
  lines, and the counter that only they read, are left out.)
\<close>

datatype event = Detect "nat list" | Send message | LogError js_error

fun is_done :: "event \<Rightarrow> bool" where
  "is_done (Send (Done wk m)) = True"
| "is_done e = False"

text \<open>The module's state: the flag \<open>stopped\<close>, the work object in hand, and the events so far.\<close>

record world =
  stopped :: bool
  work :: work_obj
  trace :: "event list"

text \<open>
  The detector (\<open>detector.getFaces\<close>, a neural network behind a promise) is a
  parameter: for the bytes of an image its promise rejects, or resolves to a detection
  without faces, or to the detected faces. While the scan waits at index \<open>i\<close>, the
  host's \<open>stop\<close> message may be handled: \<open>stop_arrives\<close> says at which indices it is.
  One scan runs at a time; a second \<open>do\<close> during a scan is outside the model.
\<close>

datatype detection = Rejected | NoFaces | Faces "detected_face list"

record env =
  detector :: "nat list \<Rightarrow> detection"
  stop_arrives :: "int \<Rightarrow> bool"

definition getFaces :: "env \<Rightarrow> nat list \<Rightarrow> js_error + landmark list option" where
  "getFaces ev img =
     (case detector ev img of
        Rejected \<Rightarrow> Inl DetectorError
      | NoFaces \<Rightarrow> Inr None
      | Faces fs \<Rightarrow> Inr (Some (map FaceLandmark fs)))"

text \<open>\<open>items[index]\<close>: \<^verbatim>\<open>undefined\<close> outside the array.\<close>

definition item_at :: "item list \<Rightarrow> int \<Rightarrow> item" where
  "item_at its i = (if 0 \<le> i \<and> i < int (length its) then its ! nat i else Absent)"

definition store_item :: "int \<Rightarrow> item \<Rightarrow> world \<Rightarrow> world" where
  "store_item i v w = w\<lparr>work := (work w)\<lparr>items := (items (work w))[nat i := v]\<rparr>\<rparr>"

definition emit :: "event \<Rightarrow> world \<Rightarrow> world" where
  "emit e w = w\<lparr>trace := trace w @ [e]\<rparr>"

text \<open>
  \<open>getFaceFeatures(items, index)\<close>: the new state with what the call returns
  (\<open>Inr None\<close> for \<^verbatim>\<open>undefined\<close>), or with the error that leaves it.
\<close>

definition getFaceFeatures :: "env \<Rightarrow> world \<Rightarrow> int \<Rightarrow> world \<times> (js_error + features option)" where
  "getFaceFeatures ev w index =
     (case item_at (items (work w)) index of
        Absent \<Rightarrow> (w, Inr None)
      | NoFace \<Rightarrow> (w, Inr None)
      | Cached f \<Rightarrow> (w, Inr (Some f))
      | Raw bytes \<Rightarrow>
          (let w1 = emit (Detect bytes) w in
           case getFaces ev bytes of
             Inl e \<Rightarrow> (w1, Inl e)
           | Inr (Some (face # others)) \<Rightarrow>
               (let res = getFeatures face;
                    w2 = store_item index (Cached res) w1
                in (emit (Send (Update index (item_at (items (work w2)) index))) w2,
                    Inr (Some res)))
           | Inr faces \<Rightarrow>
               (let w2 = store_item index NoFace w1
                in (emit (Send (Update index (item_at (items (work w2)) index))) w2,
                    Inr None))))"

text \<open>The flag after the scan has waited at index \<open>i\<close>.\<close>

definition await_point :: "env \<Rightarrow> int \<Rightarrow> world \<Rightarrow> world" where
  "await_point ev i w = w\<lparr>stopped := stopped w \<or> stop_arrives ev i\<rparr>"

text \<open>
  The \<open>while (current <= end)\<close> loop of \<open>verify\<close>, with the arrays \<open>features\<close> and
  \<open>indices\<close>; an error of \<open>getFaceFeatures\<close> leaves it with the state reached.
\<close>

function scan_loop ::
  "env \<Rightarrow> int \<Rightarrow> int \<Rightarrow> world \<Rightarrow> features list \<times> int list
     \<Rightarrow> world \<times> (js_error + features list \<times> int list)" where
  "scan_loop ev current end' w (fs, ids) =
     (if current \<le> end' then
        (if stopped w then (w, Inr (fs, ids))
         else case getFaceFeatures ev w current of
                (w1, Inl e) \<Rightarrow> (await_point ev current w1, Inl e)
              | (w1, Inr None) \<Rightarrow>
                  scan_loop ev (current + 1) end' (await_point ev current w1) (fs, ids)
              | (w1, Inr (Some f)) \<Rightarrow>
                  scan_loop ev (current + 1) end' (await_point ev current w1)
                    (fs @ [f], ids @ [current]))
      else (w, Inr (fs, ids)))"
  by pat_completeness auto
termination
  by (relation "measure (\<lambda>(ev, current, end', w, acc). nat (end' + 1 - current))") auto

text \<open>The body of the \<open>try\<close> block of \<open>verify\<close>: the state it reaches, with \<open>matched\<close> or the error thrown.\<close>

definition try_block :: "env \<Rightarrow> int \<Rightarrow> int \<Rightarrow> world \<Rightarrow> world \<times> (js_error + matched option)" where
  "try_block ev start end' w =
     (case scan_loop ev start end' w ([], []) of
        (w1, Inl e) \<Rightarrow> (w1, Inl e)
      | (w1, Inr (fs, ids)) \<Rightarrow>
          if \<not> stopped w1 \<and> fs \<noteq> [] then
            (case FaceFeatures_find (FaceFeatures_from (feature (work w1))) (map Obj fs) None of
               Inl e \<Rightarrow> (w1, Inl e)
             | Inr (None, conf) \<Rightarrow> (w1, Inr None)
             | Inr (Some match, conf) \<Rightarrow>
                 (w1, Inr (Some \<lparr>label = at_index ids match,
                                confidence = js_sub (Fin 1) (to_number conf)\<rparr>)))
          else (w1, Inr None))"

text \<open>\<open>verify(work, start, end)\<close>: the \<open>catch\<close> logs the error and leaves \<open>matched\<close> at \<^verbatim>\<open>null\<close>; then \<open>done\<close> is sent.\<close>

definition verify :: "env \<Rightarrow> int \<Rightarrow> int \<Rightarrow> world \<Rightarrow> world" where
  "verify ev start end' w =
     (case try_block ev start end' w of
        (w1, Inl e) \<Rightarrow> emit (Send (Done (work w1) None)) (emit (LogError e) w1)
      | (w1, Inr m) \<Rightarrow> emit (Send (Done (work w1) m)) w1)"

text \<open>The handler of the host's messages.\<close>

datatype command = Do work_obj int int | Stop

fun on_message :: "env \<Rightarrow> command \<Rightarrow> world \<Rightarrow> world" where
  "on_message ev (Do wk start end') w = verify ev start end' (w\<lparr>stopped := False, work := wk\<rparr>)"
| "on_message ev Stop w = w\<lparr>stopped := True\<rparr>"

section \<open>Notions of the specification and sample inputs\<close>

text \<open>
  Two feature vectors are comparable when they have the same group names and, under
  each name, arrays of the same length.
\<close>

definition same_shape :: "features \<Rightarrow> features \<Rightarrow> bool" where
  "same_shape a b \<longleftrightarrow>
     set (map fst a) = set (map fst b)
     \<and> (\<forall>k \<in> set (map fst a). map_option length (map_of a k) = map_option length (map_of b k))"

text \<open>A detected face whose two keypoints lie at the same depth.\<close>

definition flat_face :: detected_face where
  "flat_face =
     \<lparr>df_box = \<lparr>box_xMin = Fin 0, box_yMin = Fin 0, box_width = Fin 10, box_height = Fin 10\<rparr>,
      df_keypoints = [\<lparr>kname = Some ''lips'', kx = Fin 1, ky = Fin 2, kz = Fin 5\<rparr>,
                      \<lparr>kname = Some ''lips'', kx = Fin 3, ky = Fin 4, kz = Fin 5\<rparr>]\<rparr>"

text \<open>The finite numbers, and the real a finite number denotes.\<close>

fun is_finite :: "jsnum \<Rightarrow> bool" where
  "is_finite (Fin r) = True"
| "is_finite v = False"

fun real_of :: "jsnum \<Rightarrow> real" where
  "real_of (Fin r) = r"
| "real_of v = 0"

definition all_finite :: "features \<Rightarrow> bool" where
  "all_finite a = list_all (\<lambda>(k, xs). list_all is_finite xs) a"

text \<open>
  The distance as the specification words it: per group the Euclidean norm of the
  differences of the two flat arrays, and over the groups the arithmetic mean.
\<close>

definition euclidean_norm :: "jsnum list \<Rightarrow> jsnum list \<Rightarrow> real" where
  "euclidean_norm xs ys = sqrt (\<Sum>i<length xs. (real_of (xs ! i) - real_of (ys ! i))\<^sup>2)"

definition mean_distance :: "features \<Rightarrow> features \<Rightarrow> real" where
  "mean_distance a b =
     sum_list (map (\<lambda>(k, xs). case map_of b k of Some ys \<Rightarrow> euclidean_norm xs ys | None \<Rightarrow> 0) a)
       / real (length a)"

text \<open>Two comparable feature vectors, with their groups in different orders.\<close>

definition probe2 :: features where
  "probe2 = [(''lips'', [Fin 0, Fin 3]), (''leftEye'', [Fin 1])]"

definition cand2 :: features where
  "cand2 = [(''leftEye'', [Fin 1]), (''lips'', [Fin 4, Fin 0])]"

text \<open>
  The number that \<open>find\<close> compares for a candidate: its distance, \<open>NaN\<close> when the
  distance is \<^verbatim>\<open>undefined\<close>.
\<close>

definition dist_num :: "features \<Rightarrow> features ref \<Rightarrow> jsnum" where
  "dist_num this c = (case distance this c of Inl e \<Rightarrow> NaN | Inr d \<Rightarrow> to_number d)"

text \<open>
  What the loop of \<open>find\<close> holds after the candidates \<open>cs\<close>: nothing when none is within
  the threshold; otherwise an index with its distance, within the threshold, not larger
  than any candidate within the threshold and smaller than every earlier one.
\<close>

definition best_so_far ::
  "features \<Rightarrow> jsnum \<Rightarrow> features ref list \<Rightarrow> nat option \<times> jsnum option \<Rightarrow> bool" where
  "best_so_far this th cs r =
     (case r of
        (None, conf) \<Rightarrow> conf = None \<and> (\<forall>j<length cs. \<not> js_le (dist_num this (cs ! j)) th)
      | (Some i, conf) \<Rightarrow>
          i < length cs \<and> distance this (cs ! i) = Inr conf \<and> js_le (to_number conf) th
          \<and> (\<forall>j<length cs. js_le (dist_num this (cs ! j)) th \<longrightarrow>
                js_le (to_number conf) (dist_num this (cs ! j))
                \<and> (j < i \<longrightarrow> js_lt (to_number conf) (dist_num this (cs ! j)))))"

text \<open>A probe and three candidates, of which the second and the third are at distance 0.\<close>

definition tie_probe :: features where
  "tie_probe = [(''lips'', [Fin 0])]"

definition tie_cands :: "features ref list" where
  "tie_cands = [Obj [(''lips'', [Fin 1])], Obj [(''lips'', [Fin 0])], Obj [(''lips'', [Fin 0])]]"

text \<open>A slot that holds raw image data.\<close>

fun is_raw :: "item \<Rightarrow> bool" where
  "is_raw (Raw bytes) = True"
| "is_raw v = False"

text \<open>What a call found in the cache: the features, or nothing to return.\<close>

fun cached :: "item \<Rightarrow> features option" where
  "cached (Cached f) = Some f"
| "cached v = None"

text \<open>The events between an earlier and a later state, and what they hold.\<close>

definition new_events :: "world \<Rightarrow> world \<Rightarrow> event list" where
  "new_events w w' = drop (length (trace w)) (trace w')"

fun detect_calls :: "event list \<Rightarrow> nat list list" where
  "detect_calls [] = []"
| "detect_calls (Detect bytes # es) = bytes # detect_calls es"
| "detect_calls (e # es) = detect_calls es"

fun update_indices :: "event list \<Rightarrow> int list" where
  "update_indices [] = []"
| "update_indices (Send (Update i v) # es) = i # update_indices es"
| "update_indices (e # es) = update_indices es"

text \<open>
  What a part of the scan over the indices from \<open>lo\<close> to \<open>hi\<close> may change: it only adds
  events, none of them a \<open>done\<close>, and a slot that differs afterwards lies in the range,
  held raw image data, and was reported by an \<open>update\<close> with its new content.
\<close>

definition frame :: "int \<Rightarrow> int \<Rightarrow> world \<Rightarrow> world \<Rightarrow> bool" where
  "frame lo hi w w' \<longleftrightarrow>
     feature (work w') = feature (work w)
     \<and> work_id (work w') = work_id (work w)
     \<and> length (items (work w')) = length (items (work w))
     \<and> (\<exists>es. trace w' = trace w @ es \<and> filter is_done es = []
           \<and> (\<forall>j. item_at (items (work w')) j \<noteq> item_at (items (work w)) j \<longrightarrow>
                  lo \<le> j \<and> j \<le> hi \<and> is_raw (item_at (items (work w)) j)
                  \<and> Send (Update j (item_at (items (work w')) j)) \<in> set es))"

text \<open>
  Sample runs: a work of three items, a host that stops the scan during index 0, a
  detector that rejects every image but the first, and a work whose cached features
  have one group more than the probe.
\<close>

definition sample_work :: work_obj where
  "sample_work =
     \<lparr>work_id = ''w1'',
      items = [Raw [1], Cached [(''lips'', [Fin 0])], Raw [2]],
      feature = [(''lips'', [Fin 0])]\<rparr>"

definition idle :: world where
  "idle = \<lparr>stopped = False, work = sample_work, trace = []\<rparr>"

definition stop_env :: env where
  "stop_env = \<lparr>detector = (\<lambda>bytes. NoFaces), stop_arrives = (\<lambda>i. i = 0)\<rparr>"

definition calm_env :: env where
  "calm_env =
     \<lparr>detector = (\<lambda>bytes. if bytes = [1] then NoFaces else Rejected),
      stop_arrives = (\<lambda>i. False)\<rparr>"

definition odd_work :: work_obj where
  "odd_work =
     \<lparr>work_id = ''w2'',
      items = [Cached [(''lips'', [Fin 0]), (''leftEye'', [Fin 1])]],
      feature = [(''lips'', [Fin 0])]\<rparr>"

definition odd_idle :: world where
  "odd_idle = \<lparr>stopped = False, work = odd_work, trace = []\<rparr>"

section \<open>Normalization of a landmark without depth\<close>

lemma js_min2_idem: "js_min2 c c = c"
  by (cases c) auto

lemma js_max2_idem: "js_max2 c c = c"
  by (cases c) auto

lemma js_min2_PInf: "js_min2 PInf c = c"
  by (cases c) auto

lemma js_max2_NInf: "js_max2 NInf c = c"
  by (cases c) auto

lemma foldl_min2_const: "\<forall>v\<in>set vs. v = c \<Longrightarrow> foldl js_min2 c vs = c"
  by (induction vs) (auto simp: js_min2_idem)

lemma foldl_max2_const: "\<forall>v\<in>set vs. v = c \<Longrightarrow> foldl js_max2 c vs = c"
  by (induction vs) (auto simp: js_max2_idem)

lemma Math_min_const: "vs \<noteq> [] \<Longrightarrow> \<forall>v\<in>set vs. v = c \<Longrightarrow> Math_min vs = c"
  by (cases vs) (auto simp: Math_min_def js_min2_PInf foldl_min2_const)

lemma Math_max_const: "vs \<noteq> [] \<Longrightarrow> \<forall>v\<in>set vs. v = c \<Longrightarrow> Math_max vs = c"
  by (cases vs) (auto simp: Math_max_def js_max2_NInf foldl_max2_const)

text \<open>The \<open>z\<close> of a normalized point: the minimum subtracted, then the scale multiplied.\<close>

lemma pz_Point_normalize:
  "pz (Point_normalize args p) =
     (case zMin args of
        None \<Rightarrow> (case zScale args of None \<Rightarrow> pz p | Some s \<Rightarrow> js_mul (pz p) s)
      | Some m \<Rightarrow>
          (case zScale args of
             None \<Rightarrow> js_sub (pz p) m
           | Some s \<Rightarrow> js_mul (js_sub (pz p) m) s))"
  by (cases "xMin args"; cases "yMin args"; cases "zMin args";
      cases "xScale args"; cases "yScale args"; cases "zScale args")
     (simp_all add: Point_normalize_def)

lemma flat_depth_scale: "js_div scale (js_abs (js_sub (Fin c) (Fin c))) = PInf"
  by (simp add: js_sub_def scale_def)

lemma flat_depth_NaN: "js_mul (js_sub c c) (js_div scale (js_abs (js_sub c c))) = NaN"
  by (cases c) (simp_all add: js_sub_def scale_def)

lemma getz_const:
  assumes "ks \<noteq> []" "\<forall>k\<in>set ks. kz k = c"
  shows "getMin_z (Points_from ks) = c" "getMax_z (Points_from ks) = c"
  using assms by (auto simp: getMin_z_def getMax_z_def Points_from_def Point_from_def
      intro!: Math_min_const Math_max_const)

text \<open>
  Claim C2, as the code has it. The constructor of \<open>FaceLandmark\<close> has no test for
  \<open>zMax = zMin\<close>: when the keypoints (at least one) all have the same finite \<open>z\<close>, the
  scale of \<open>z\<close> is \<open>1 / 0 = Infinity\<close>, not the neutral 1, and the normalized \<open>z\<close> of
  every point is \<open>0 * Infinity = NaN\<close>.
\<close>

theorem FaceLandmark_flat_depth:
  assumes "ks \<noteq> []" and "\<forall>k\<in>set ks. kz k = Fin c"
  shows "zScale (landmark_args b (Points_from ks)) = Some PInf
         \<and> (\<forall>p\<in>set (lm_points (FaceLandmark \<lparr>df_box = b, df_keypoints = ks\<rparr>)). pz p = NaN)"
proof -
  have mn: "getMin_z (Points_from ks) = Fin c" and mx: "getMax_z (Points_from ks) = Fin c"
    using getz_const [OF assms] by simp_all
  have sc: "zScale (landmark_args b (Points_from ks)) = Some PInf"
    by (simp add: landmark_args_def mn mx flat_depth_scale)
  have "pz p = NaN" if "p \<in> set (lm_points (FaceLandmark \<lparr>df_box = b, df_keypoints = ks\<rparr>))" for p
  proof -
    from that obtain k where k: "k \<in> set ks"
      and p: "p = Point_normalize (landmark_args b (Points_from ks)) (Point_from k)"
      by (auto simp: FaceLandmark_def Let_def Points_normalize_def Points_from_def)
    have "pz (Point_from k) = Fin c"
      using k assms(2) by (simp add: Point_from_def)
    then show ?thesis
      using flat_depth_NaN [of "Fin c"]
      by (simp add: p pz_Point_normalize landmark_args_def mn mx)
  qed
  with sc show ?thesis by blast
qed

theorem FaceLandmark_flat_depth_witness:
  "zScale (landmark_args (df_box flat_face) (Points_from (df_keypoints flat_face))) = Some PInf
   \<and> pz (lm_points (FaceLandmark flat_face) ! 0) = NaN
   \<and> pz (lm_points (FaceLandmark flat_face) ! 1) = NaN"
proof -
  have len: "length (lm_points (FaceLandmark flat_face)) = 2"
    by (simp add: flat_face_def FaceLandmark_def Let_def Points_normalize_def Points_from_def)
  have "lm_points (FaceLandmark flat_face) ! 0 \<in> set (lm_points (FaceLandmark flat_face))"
    and "lm_points (FaceLandmark flat_face) ! 1 \<in> set (lm_points (FaceLandmark flat_face))"
    using len by simp_all
  then show ?thesis
    using FaceLandmark_flat_depth [of "df_keypoints flat_face" 5 "df_box flat_face"]
    by (simp add: flat_face_def)
qed

text \<open>
  Claim C2 as the specification states it fails: both keypoints of \<open>flat_face\<close> have
  \<open>z = 5\<close>, and both normalized \<open>z\<close> are \<open>NaN\<close>.
\<close>

theorem FaceLandmark_flat_depth_counterexample:
  "map pz (lm_points (FaceLandmark flat_face)) = [NaN, NaN]"
  by (simp add: flat_face_def FaceLandmark_def Points_from_def Point_from_def Points_normalize_def
      pz_Point_normalize landmark_args_def getMin_z_def getMax_z_def Math_min_def Math_max_def
      js_sub_def scale_def Let_def)

section \<open>The distance of two feature vectors\<close>

text \<open>
  Claim C10. On an argument that is \<^verbatim>\<open>undefined\<close> or \<^verbatim>\<open>null\<close>, \<open>distance\<close> neither throws
  nor returns a number: it returns \<^verbatim>\<open>undefined\<close>; and so does \<open>compare\<close> of a landmark.
\<close>

theorem distance_of_falsy_is_undefined:
  "distance f Undefined = Inr None \<and> distance f Null = Inr None
   \<and> FaceLandmark_compare lm Undefined = Inr None
   \<and> FaceLandmark_compare lm Null = Inr None"
  by simp

text \<open>
  Claim C1, as the code has it. The only test of \<open>distance\<close> compares the numbers of
  keys: when they differ, the call fails with the error of incomparable features and
  returns no number.
\<close>

theorem distance_key_count_mismatch:
  "length a \<noteq> length b \<Longrightarrow> distance a (Obj b) = Inl ShapeMismatch"
  by simp

theorem distance_key_count_mismatch_witness:
  "distance [(''lips'', [Fin 0]), (''leftEye'', [Fin 1])] (Obj [(''lips'', [Fin 0])])
     = Inl ShapeMismatch"
  using distance_key_count_mismatch
    [of "[(''lips'', [Fin 0]), (''leftEye'', [Fin 1])]" "[(''lips'', [Fin 0])]"]
  by simp

text \<open>
  Claim C1 as the specification states it fails: with the same single key and arrays
  of lengths 1 and 2, \<open>distance\<close> returns the number 0.
\<close>

theorem distance_length_mismatch_counterexample:
  "\<not> same_shape [(''lips'', [Fin 0])] [(''lips'', [Fin 0, Fin 5])]
   \<and> distance [(''lips'', [Fin 0])] (Obj [(''lips'', [Fin 0, Fin 5])]) = Inr (Some (Fin 0))"
  by (simp add: same_shape_def group_distance_def pairs_def at_index_def js_sub_def)

lemma Fin_real_of: "is_finite v \<Longrightarrow> Fin (real_of v) = v"
  by (cases v) simp_all

lemma foldl_add_squares:
  "foldl (\<lambda>a b. js_add a (js_mul b b)) (Fin s) (map Fin ds) = Fin (s + (\<Sum>d\<leftarrow>ds. d\<^sup>2))"
  by (induction ds arbitrary: s) (simp_all add: power2_eq_square add.assoc)

lemma foldl_add_Fin: "foldl js_add (Fin s) (map Fin rs) = Fin (s + sum_list rs)"
  by (induction rs arbitrary: s) (simp_all add: add.assoc)

lemma differences_finite:
  assumes "length ys = length xs" "list_all is_finite xs" "list_all is_finite ys"
  shows "map (\<lambda>(x, y). js_sub x (to_number y)) (pairs xs ys)
         = map Fin (map (\<lambda>i. real_of (xs ! i) - real_of (ys ! i)) [0..<length xs])"
proof -
  have "js_sub (xs ! i) (to_number (at_index ys i)) = Fin (real_of (xs ! i) - real_of (ys ! i))"
    if "i < length xs" for i
  proof -
    have "is_finite (xs ! i)" "is_finite (ys ! i)"
      using that assms by (simp_all add: list_all_length)
    then obtain r s where "xs ! i = Fin r" "ys ! i = Fin s"
      by (metis Fin_real_of)
    then show ?thesis
      using that assms(1) by (simp add: at_index_def js_sub_def)
  qed
  then show ?thesis
    by (simp add: pairs_def)
qed

lemma group_distance_finite:
  assumes "length ys = length xs" "list_all is_finite xs" "list_all is_finite ys"
  shows "group_distance xs ys = Fin (euclidean_norm xs ys)"
proof -
  let ?d = "\<lambda>i. real_of (xs ! i) - real_of (ys ! i)"
  have "(\<Sum>d\<leftarrow>map ?d [0..<length xs]. d\<^sup>2) = (\<Sum>i<length xs. (?d i)\<^sup>2)"
    by (simp add: comp_def interv_sum_list_conv_sum_set_nat atLeast0LessThan)
  moreover have "\<not> (\<Sum>i<length xs. (?d i)\<^sup>2) < 0"
    by (simp add: not_less sum_nonneg)
  ultimately show ?thesis
    unfolding group_distance_def differences_finite [OF assms] foldl_add_squares euclidean_norm_def
    by simp
qed

lemma group_values_finite:
  assumes "\<forall>(k, xs)\<in>set gs. \<exists>ys. map_of b k = Some ys \<and> length ys = length xs
             \<and> list_all is_finite xs \<and> list_all is_finite ys"
  shows "group_values gs b =
           Inr (map Fin (map (\<lambda>(k, xs). case map_of b k of Some ys \<Rightarrow> euclidean_norm xs ys | None \<Rightarrow> 0) gs))"
  using assms
proof (induction gs)
  case Nil
  then show ?case by simp
next
  case (Cons g gs)
  obtain k xs where g: "g = (k, xs)" by (cases g)
  from Cons.prems g obtain ys where ys: "map_of b k = Some ys" "length ys = length xs"
    "list_all is_finite xs" "list_all is_finite ys"
    by auto
  from Cons have "group_values gs b =
      Inr (map Fin (map (\<lambda>(k, xs). case map_of b k of Some ys \<Rightarrow> euclidean_norm xs ys | None \<Rightarrow> 0) gs))"
    by simp
  then show ?case
    by (simp add: g ys group_distance_finite)
qed

lemma same_shape_groups:
  assumes "same_shape a b" "distinct (map fst a)" "all_finite a" "all_finite b"
  shows "\<forall>(k, xs)\<in>set a. \<exists>ys. map_of b k = Some ys \<and> length ys = length xs
             \<and> list_all is_finite xs \<and> list_all is_finite ys"
proof clarify
  fix k xs assume kx: "(k, xs) \<in> set a"
  then have ma: "map_of a k = Some xs"
    using assms(2) by simp
  from kx have "k \<in> set (map fst a)" by force
  with assms(1) have len: "map_option length (map_of a k) = map_option length (map_of b k)"
    unfolding same_shape_def by blast
  from len ma obtain ys where mb: "map_of b k = Some ys" and l: "length ys = length xs"
    by (cases "map_of b k") auto
  from mb have "(k, ys) \<in> set b" by (rule map_of_SomeD)
  with assms(4) have "list_all is_finite ys"
    by (auto simp: all_finite_def list_all_iff)
  moreover from kx assms(3) have "list_all is_finite xs"
    by (auto simp: all_finite_def list_all_iff)
  ultimately show "\<exists>ys. map_of b k = Some ys \<and> length ys = length xs
             \<and> list_all is_finite xs \<and> list_all is_finite ys"
    using mb l by blast
qed

lemma same_shape_length:
  assumes "same_shape a b" "distinct (map fst a)" "distinct (map fst b)"
  shows "length a = length b"
proof -
  have "length a = card (set (map fst a))"
    using assms(2) distinct_card [of "map fst a"] by simp
  also have "\<dots> = card (set (map fst b))"
    using assms(1) by (simp add: same_shape_def)
  also have "\<dots> = length b"
    using assms(3) distinct_card [of "map fst b"] by simp
  finally show ?thesis .
qed

text \<open>
  Claim C3. For two feature vectors with the same group names and the same length
  under each name (at least one group, all numbers finite), \<open>distance\<close> returns the
  arithmetic mean over the groups of the Euclidean norm of the differences.
\<close>

theorem distance_is_mean_of_norms:
  assumes "same_shape a b" and "distinct (map fst a)" and "distinct (map fst b)"
    and "a \<noteq> []" and "all_finite a" and "all_finite b"
  shows "distance a (Obj b) = Inr (Some (Fin (mean_distance a b)))"
proof -
  have len: "length a = length b"
    using assms(1-3) by (rule same_shape_length)
  define rs where
    "rs = map (\<lambda>(k, xs). case map_of b k of Some ys \<Rightarrow> euclidean_norm xs ys | None \<Rightarrow> 0) a"
  have gv: "group_values a b = Inr (map Fin rs)"
    unfolding rs_def using same_shape_groups [OF assms(1,2,5,6)] by (rule group_values_finite)
  have n: "length rs = length a" "length a \<noteq> 0"
    using assms(4) by (simp_all add: rs_def)
  have "mean_distance a b = sum_list rs / real (length a)"
    by (simp add: mean_distance_def rs_def)
  then show ?thesis
    using assms(4) by (simp add: len [symmetric] gv foldl_add_Fin n)
qed

theorem distance_is_mean_of_norms_witness:
  "distance probe2 (Obj cand2) = Inr (Some (Fin (5 / 2)))"
proof -
  have "same_shape probe2 cand2"
    by (auto simp: same_shape_def probe2_def cand2_def)
  moreover have "all_finite probe2" "all_finite cand2"
    by (simp_all add: all_finite_def probe2_def cand2_def)
  moreover have "distinct (map fst probe2)" "distinct (map fst cand2)" "probe2 \<noteq> []"
    by (simp_all add: probe2_def cand2_def)
  moreover have "mean_distance probe2 cand2 = 5 / 2"
  proof -
    have "sqrt ((0 - 4)\<^sup>2 + (3 - 0)\<^sup>2) = sqrt (5\<^sup>2)" by simp
    then have "sqrt ((0 - 4)\<^sup>2 + (3 - 0)\<^sup>2) = (5::real)" by (simp only: real_sqrt_abs)
    then show ?thesis
      by (simp add: mean_distance_def probe2_def cand2_def euclidean_norm_def lessThan_Suc numeral_2_eq_2)
  qed
  ultimately show ?thesis
    using distance_is_mean_of_norms [of probe2 cand2] by simp
qed

section \<open>The best match\<close>

lemma js_le_refl: "js_le a b \<Longrightarrow> js_le a a"
  by (cases a; cases b) simp_all

lemma js_le_antisym: "js_le a b \<Longrightarrow> js_le b a \<Longrightarrow> a = b"
  by (cases a; cases b) simp_all

lemma js_lt_irrefl: "\<not> js_lt a a"
  by (cases a) simp_all

lemma js_lt_imp_le: "js_lt a b \<Longrightarrow> js_le a b"
  by (cases a; cases b) simp_all

lemma js_lt_le_trans: "js_lt a b \<Longrightarrow> js_le b c \<Longrightarrow> js_lt a c"
  by (cases a; cases b; cases c) simp_all

lemma js_not_lt_le: "js_le a t \<Longrightarrow> js_le b u \<Longrightarrow> \<not> js_lt a b \<Longrightarrow> js_le b a"
  by (cases a; cases b; cases t; cases u) simp_all

lemma find_loop_append:
  "find_loop this th (es @ es') (index, conf) =
     (case find_loop this th es (index, conf) of
        Inl e \<Rightarrow> Inl e
      | Inr s \<Rightarrow> find_loop this th es' s)"
  by (induction es arbitrary: index conf) (auto split: sum.splits)

lemma find_loop_single:
  "find_loop this th [(n, c)] (index, conf) =
     (case distance this c of
        Inl e \<Rightarrow> Inl e
      | Inr d \<Rightarrow>
          Inr (if js_le (to_number d) th \<and> (conf = None \<or> js_lt (to_number d) (to_number conf))
               then (Some n, d) else (index, conf)))"
  by (auto split: sum.splits)

lemma find_loop_total:
  "\<forall>c\<in>set cs. \<exists>d. distance this c = Inr d \<Longrightarrow>
     \<exists>r. find_loop this th (enumerate n cs) (index, conf) = Inr r"
  by (induction cs arbitrary: n index conf) auto

lemma best_so_far_step:
  assumes inv: "best_so_far this th cs (index, conf)"
    and d: "distance this c = Inr d"
  shows "best_so_far this th (cs @ [c])
           (if js_le (to_number d) th \<and> (conf = None \<or> js_lt (to_number d) (to_number conf))
            then (Some (length cs), d) else (index, conf))"
proof (cases "js_le (to_number d) th \<and> (conf = None \<or> js_lt (to_number d) (to_number conf))")
  case True
  have dn: "dist_num this c = to_number d" by (simp add: dist_num_def d)
  have "js_le (to_number d) (dist_num this ((cs @ [c]) ! j))
        \<and> (j < length cs \<longrightarrow> js_lt (to_number d) (dist_num this ((cs @ [c]) ! j)))"
    if j: "j < length (cs @ [c])" and w: "js_le (dist_num this ((cs @ [c]) ! j)) th" for j
  proof (cases "j < length cs")
    case False
    with j have "j = length cs" by simp
    moreover from True have "js_le (to_number d) (to_number d)" by (blast intro: js_le_refl)
    ultimately show ?thesis by (simp add: dn)
  next
    case lt: True
    then have w': "js_le (dist_num this (cs ! j)) th" using w by (simp add: nth_append)
    show ?thesis
    proof (cases index)
      case None
      with inv lt w' show ?thesis by (simp add: best_so_far_def)
    next
      case (Some i)
      with inv lt w' have c: "js_le (to_number conf) (dist_num this (cs ! j))"
        and "js_le (to_number conf) th"
        by (auto simp: best_so_far_def)
      then have "conf \<noteq> None" by (cases conf) simp_all
      with True have "js_lt (to_number d) (to_number conf)" by simp
      then have "js_lt (to_number d) (dist_num this (cs ! j))" using c by (rule js_lt_le_trans)
      then show ?thesis using lt by (simp add: nth_append js_lt_imp_le)
    qed
  qed
  then show ?thesis using True d by (simp add: best_so_far_def)
next
  case False
  have dn: "dist_num this c = to_number d" by (simp add: dist_num_def d)
  show ?thesis
  proof (cases index)
    case None
    with inv have "conf = None" and no: "\<forall>j<length cs. \<not> js_le (dist_num this (cs ! j)) th"
      by (simp_all add: best_so_far_def)
    with False have "\<not> js_le (dist_num this c) th" by (simp add: dn)
    with no have "\<forall>j<length (cs @ [c]). \<not> js_le (dist_num this ((cs @ [c]) ! j)) th"
      by (simp add: nth_append less_Suc_eq)
    with False None \<open>conf = None\<close> show ?thesis by (simp add: best_so_far_def)
  next
    case (Some i)
    with inv have i: "i < length cs" "distance this (cs ! i) = Inr conf" "js_le (to_number conf) th"
      and all: "\<forall>j<length cs. js_le (dist_num this (cs ! j)) th \<longrightarrow>
                js_le (to_number conf) (dist_num this (cs ! j))
                \<and> (j < i \<longrightarrow> js_lt (to_number conf) (dist_num this (cs ! j)))"
      by (simp_all add: best_so_far_def)
    from i(3) have ne: "conf \<noteq> None" by (cases conf) simp_all
    have last: "js_le (to_number conf) (to_number d)" if "js_le (to_number d) th"
      using that False ne i(3) by (auto intro: js_not_lt_le)
    have allj: "js_le (to_number conf) (dist_num this ((cs @ [c]) ! j))
          \<and> (j < i \<longrightarrow> js_lt (to_number conf) (dist_num this ((cs @ [c]) ! j)))"
      if j: "j < length (cs @ [c])" and w: "js_le (dist_num this ((cs @ [c]) ! j)) th" for j
    proof (cases "j < length cs")
      case True
      with all w show ?thesis by (simp add: nth_append)
    next
      case False
      with j have "j = length cs" by simp
      with w last i(1) show ?thesis by (simp add: dn)
    qed
    have res: "(if js_le (to_number d) th \<and> (conf = None \<or> js_lt (to_number d) (to_number conf))
            then (Some (length cs), d) else (index, conf)) = (Some i, conf)"
      using False Some by auto
    have il: "i < length (cs @ [c])" "(cs @ [c]) ! i = cs ! i"
      using i(1) by (simp_all add: nth_append)
    show ?thesis
      unfolding res best_so_far_def using il i(2,3) allj by simp
  qed
qed

lemma find_loop_best:
  "find_loop this th (enumerate 0 cs) (None, None) = Inr r \<Longrightarrow> best_so_far this th cs r"
proof (induction cs arbitrary: r rule: rev_induct)
  case Nil
  then show ?case by (auto simp: best_so_far_def)
next
  case (snoc c cs)
  from snoc.prems obtain s where s: "find_loop this th (enumerate 0 cs) (None, None) = Inr s"
    and r: "find_loop this th [(length cs, c)] s = Inr r"
    by (auto simp: enumerate_append_eq find_loop_append split: sum.splits)
  obtain index conf where sp: "s = (index, conf)" by (cases s)
  from s have inv: "best_so_far this th cs (index, conf)"
    unfolding sp by (rule snoc.IH)
  from r obtain d where d: "distance this c = Inr d"
    and r': "r = (if js_le (to_number d) th \<and> (conf = None \<or> js_lt (to_number d) (to_number conf))
               then (Some (length cs), d) else (index, conf))"
    unfolding sp find_loop_single by (auto split: sum.splits)
  show ?case unfolding r' using inv d by (rule best_so_far_step)
qed

lemma find_best:
  assumes "\<forall>c\<in>set cands. \<exists>d. distance this c = Inr d"
  shows "\<exists>r. FaceFeatures_find this cands t = Inr r \<and> best_so_far this (threshold t) cands r"
proof -
  from assms obtain r where r: "find_loop this (threshold t) (enumerate 0 cands) (None, None) = Inr r"
    using find_loop_total by blast
  then have "best_so_far this (threshold t) cands r" by (rule find_loop_best)
  with r show ?thesis by (auto simp: FaceFeatures_find_def)
qed

text \<open>
  Claim C4. When every candidate has a distance (no comparison throws), \<open>find\<close>
  returns; it returns no index exactly when no candidate's distance is \<open>\<le>\<close> the
  threshold (0.075 when none is given), and an index it returns is that of a
  candidate whose distance is the one returned and is \<open>\<le>\<close> the threshold.
\<close>

theorem find_respects_threshold:
  assumes "\<forall>c\<in>set cands. \<exists>d. distance this c = Inr d"
  shows "\<exists>index conf. FaceFeatures_find this cands t = Inr (index, conf)
     \<and> (index = None \<longleftrightarrow> (\<forall>j<length cands. \<not> js_le (dist_num this (cands ! j)) (threshold t)))
     \<and> (\<forall>i. index = Some i \<longrightarrow>
           i < length cands \<and> distance this (cands ! i) = Inr conf
           \<and> js_le (to_number conf) (threshold t))
     \<and> threshold None = Fin (75 / 1000)"
proof -
  from find_best [OF assms] obtain index conf
    where r: "FaceFeatures_find this cands t = Inr (index, conf)"
      and b: "best_so_far this (threshold t) cands (index, conf)"
    by force
  have "index = None \<longleftrightarrow> (\<forall>j<length cands. \<not> js_le (dist_num this (cands ! j)) (threshold t))"
  proof (cases index)
    case None
    with b show ?thesis by (simp add: best_so_far_def)
  next
    case (Some i)
    with b have "i < length cands" "js_le (dist_num this (cands ! i)) (threshold t)"
      by (simp_all add: best_so_far_def dist_num_def)
    with Some show ?thesis by auto
  qed
  moreover have "\<forall>i. index = Some i \<longrightarrow>
           i < length cands \<and> distance this (cands ! i) = Inr conf
           \<and> js_le (to_number conf) (threshold t)"
    using b by (auto simp: best_so_far_def)
  ultimately show ?thesis
    using r by (simp add: threshold_def default_confidence_def)
qed

text \<open>
  Claim C5. When every candidate has a distance, and \<open>j\<close> is the earliest index whose
  distance is within the threshold and minimal among the candidates within the
  threshold (no earlier candidate has the same distance), \<open>find\<close> returns \<open>j\<close> with
  that distance.
\<close>

theorem find_earliest_minimum:
  assumes "\<forall>c\<in>set cands. \<exists>d. distance this c = Inr d"
    and "j < length cands"
    and "js_le (dist_num this (cands ! j)) (threshold t)"
    and "\<forall>k<length cands. js_le (dist_num this (cands ! k)) (threshold t) \<longrightarrow>
           js_le (dist_num this (cands ! j)) (dist_num this (cands ! k))"
    and "\<forall>k<j. dist_num this (cands ! k) \<noteq> dist_num this (cands ! j)"
  shows "\<exists>conf. FaceFeatures_find this cands t = Inr (Some j, conf)
           \<and> to_number conf = dist_num this (cands ! j)"
proof -
  from find_best [OF assms(1)] obtain index conf
    where r: "FaceFeatures_find this cands t = Inr (index, conf)"
      and b: "best_so_far this (threshold t) cands (index, conf)"
    by force
  from b assms(2,3) obtain i where i: "index = Some i"
    by (cases index) (auto simp: best_so_far_def)
  with b have il: "i < length cands" and di: "distance this (cands ! i) = Inr conf"
    and wi: "js_le (to_number conf) (threshold t)"
    and all: "\<forall>k<length cands. js_le (dist_num this (cands ! k)) (threshold t) \<longrightarrow>
                js_le (to_number conf) (dist_num this (cands ! k))
                \<and> (k < i \<longrightarrow> js_lt (to_number conf) (dist_num this (cands ! k)))"
    by (simp_all add: best_so_far_def)
  have dn: "dist_num this (cands ! i) = to_number conf"
    by (simp add: dist_num_def di)
  have "js_le (to_number conf) (dist_num this (cands ! j))"
    using all assms(2,3) by blast
  moreover have "js_le (dist_num this (cands ! j)) (to_number conf)"
    using assms(4) il wi dn by auto
  ultimately have eq: "to_number conf = dist_num this (cands ! j)"
    by (rule js_le_antisym)
  have "\<not> j < i"
    using all assms(2,3) eq js_lt_irrefl by metis
  moreover have "\<not> i < j"
    using assms(5) dn eq by auto
  ultimately have "i = j" by simp
  with r i eq show ?thesis by simp
qed

theorem find_respects_threshold_witness:
  "FaceFeatures_find tie_probe tie_cands None = Inr (Some 1, Some (Fin 0))"
proof -
  have "\<forall>c\<in>set tie_cands. \<exists>d. distance tie_probe c = Inr d"
    by (simp add: tie_probe_def tie_cands_def)
  from find_respects_threshold [OF this, of None] obtain index conf
    where r: "FaceFeatures_find tie_probe tie_cands None = Inr (index, conf)"
      and n: "index = None \<longleftrightarrow> (\<forall>j<length tie_cands. \<not> js_le (dist_num tie_probe (tie_cands ! j)) (threshold None))"
      and s: "\<forall>i. index = Some i \<longrightarrow> i < length tie_cands \<and> distance tie_probe (tie_cands ! i) = Inr conf
           \<and> js_le (to_number conf) (threshold None)"
    by blast
  have "FaceFeatures_find tie_probe tie_cands None = Inr (Some 1, Some (Fin 0))"
    by (simp add: FaceFeatures_find_def tie_probe_def tie_cands_def threshold_def default_confidence_def
        group_distance_def pairs_def at_index_def js_sub_def enumerate_eq_zip upt_rec)
  with r s show ?thesis by simp
qed

theorem find_earliest_minimum_witness:
  "\<exists>conf. FaceFeatures_find tie_probe tie_cands None = Inr (Some 1, conf)
     \<and> to_number conf = dist_num tie_probe (tie_cands ! 1)"
proof -
  have a: "\<forall>c\<in>set tie_cands. \<exists>d. distance tie_probe c = Inr d"
    by (simp add: tie_probe_def tie_cands_def)
  have len: "length tie_cands = 3" by (simp add: tie_cands_def)
  have d: "dist_num tie_probe (tie_cands ! 0) = Fin 1"
    "dist_num tie_probe (tie_cands ! Suc 0) = Fin 0"
    "dist_num tie_probe (tie_cands ! Suc (Suc 0)) = Fin 0"
    by (simp_all add: dist_num_def tie_probe_def tie_cands_def group_distance_def pairs_def
        at_index_def js_sub_def)
  have th: "threshold None = Fin (75 / 1000)" by (simp add: threshold_def default_confidence_def)
  have b: "(1::nat) < length tie_cands" by (simp add: len)
  have c: "js_le (dist_num tie_probe (tie_cands ! 1)) (threshold None)" by (simp add: d th)
  have e: "\<forall>k<length tie_cands. js_le (dist_num tie_probe (tie_cands ! k)) (threshold None) \<longrightarrow>
           js_le (dist_num tie_probe (tie_cands ! 1)) (dist_num tie_probe (tie_cands ! k))"
    by (simp add: len d th less_Suc_eq numeral_3_eq_3)
  have f: "\<forall>k<1. dist_num tie_probe (tie_cands ! k) \<noteq> dist_num tie_probe (tie_cands ! 1)"
    by (simp add: d)
  show ?thesis
    using find_earliest_minimum [OF a b c e f] .
qed

section \<open>The scan of a partition\<close>

declare scan_loop.simps [simp del]

lemma item_at_store:
  "item_at (items (work w)) i = Raw bytes \<Longrightarrow>
     item_at (items (work (store_item i v w))) j = (if j = i then v else item_at (items (work w)) j)"
  by (auto simp: item_at_def store_item_def nth_list_update split: if_splits)

lemma length_store [simp]: "length (items (work (store_item i v w))) = length (items (work w))"
  by (simp add: store_item_def)

lemma store_fields [simp]:
  "feature (work (store_item i v w)) = feature (work w)"
  "work_id (work (store_item i v w)) = work_id (work w)"
  "stopped (store_item i v w) = stopped w"
  "trace (store_item i v w) = trace w"
  by (simp_all add: store_item_def)

lemma emit_fields [simp]:
  "work (emit e w) = work w"
  "stopped (emit e w) = stopped w"
  "trace (emit e w) = trace w @ [e]"
  by (simp_all add: emit_def)

lemma await_fields [simp]:
  "work (await_point ev i w) = work w"
  "trace (await_point ev i w) = trace w"
  "stopped w \<Longrightarrow> stopped (await_point ev i w)"
  by (simp_all add: await_point_def)

text \<open>The three ways out of \<open>getFaceFeatures\<close>.\<close>

lemma getFaceFeatures_cases:
  assumes "getFaceFeatures ev w i = (w', r)"
  obtains
    (hit) "\<not> is_raw (item_at (items (work w)) i)" "w' = w"
      "r = Inr (cached (item_at (items (work w)) i))"
  | (rejected) bytes where "item_at (items (work w)) i = Raw bytes"
      "w' = emit (Detect bytes) w" "r = Inl DetectorError"
  | (resolved) bytes v where "item_at (items (work w)) i = Raw bytes" "\<not> is_raw v"
      "w' = emit (Send (Update i v)) (store_item i v (emit (Detect bytes) w))"
      "r = Inr (cached v)"
proof (cases "item_at (items (work w)) i")
  case (Raw bytes)
  have at: "item_at (items (work (emit (Detect bytes) w))) i = Raw bytes"
    using Raw by simp
  show ?thesis
  proof (cases "getFaces ev bytes")
    case (Inl e)
    then have "e = DetectorError"
      by (auto simp: getFaces_def split: detection.splits)
    with assms Raw Inl show ?thesis
      by (intro rejected [of bytes]) (auto simp: getFaceFeatures_def Let_def)
  next
    case (Inr faces)
    show ?thesis
    proof (cases "\<exists>face others. faces = Some (face # others)")
      case True
      then obtain face others where f: "faces = Some (face # others)" by blast
      with assms Raw Inr show ?thesis
        by (intro resolved [of bytes "Cached (getFeatures face)"])
           (auto simp: getFaceFeatures_def Let_def item_at_store [OF at])
    next
      case False
      have "faces = None \<or> faces = Some []"
      proof (cases faces)
        case (Some fs)
        with False show ?thesis by (cases fs) auto
      qed simp
      with assms Raw Inr show ?thesis
        by (intro resolved [of bytes NoFace])
           (auto simp: getFaceFeatures_def Let_def item_at_store [OF at])
    qed
  qed
qed (use assms in \<open>auto simp: getFaceFeatures_def intro: hit\<close>)

lemma frame_refl: "frame lo hi w w"
  by (simp add: frame_def)

lemma frame_await: "frame lo hi w w' \<Longrightarrow> frame lo hi w (await_point ev i w')"
  by (simp add: frame_def)

lemma frame_getFaceFeatures:
  assumes "getFaceFeatures ev w i = (w', r)"
  shows "frame i i w w'"
  using assms
proof (cases rule: getFaceFeatures_cases)
  case hit
  then show ?thesis by (simp add: frame_refl)
next
  case (rejected bytes)
  then show ?thesis by (simp add: frame_def)
next
  case (resolved bytes v)
  have at: "item_at (items (work (emit (Detect bytes) w))) i = Raw bytes"
    using resolved(1) by simp
  show ?thesis
    unfolding frame_def using resolved(1)
    by (simp add: resolved(3) item_at_store [OF at])
qed

lemma frame_trans:
  assumes f1: "frame lo mid w w1" and f2: "frame (mid + 1) hi w1 w2"
    and b: "lo \<le> mid + 1" "mid \<le> hi"
  shows "frame lo hi w w2"
proof -
  from f1 obtain es1 where t1: "trace w1 = trace w @ es1" and d1: "filter is_done es1 = []"
    and c1: "\<And>j. item_at (items (work w1)) j \<noteq> item_at (items (work w)) j \<Longrightarrow>
               lo \<le> j \<and> j \<le> mid \<and> is_raw (item_at (items (work w)) j)
               \<and> Send (Update j (item_at (items (work w1)) j)) \<in> set es1"
    unfolding frame_def by blast
  from f2 obtain es2 where t2: "trace w2 = trace w1 @ es2" and d2: "filter is_done es2 = []"
    and c2: "\<And>j. item_at (items (work w2)) j \<noteq> item_at (items (work w1)) j \<Longrightarrow>
               mid + 1 \<le> j \<and> j \<le> hi \<and> is_raw (item_at (items (work w1)) j)
               \<and> Send (Update j (item_at (items (work w2)) j)) \<in> set es2"
    unfolding frame_def by blast
  have "lo \<le> j \<and> j \<le> hi \<and> is_raw (item_at (items (work w)) j)
        \<and> Send (Update j (item_at (items (work w2)) j)) \<in> set (es1 @ es2)"
    if ne: "item_at (items (work w2)) j \<noteq> item_at (items (work w)) j" for j
  proof (cases "item_at (items (work w2)) j = item_at (items (work w1)) j")
    case True
    with ne c1 [of j] b show ?thesis by auto
  next
    case False
    from c2 [OF False] have j: "mid + 1 \<le> j" "j \<le> hi" "is_raw (item_at (items (work w1)) j)"
      "Send (Update j (item_at (items (work w2)) j)) \<in> set es2"
      by simp_all
    have "item_at (items (work w1)) j = item_at (items (work w)) j"
      using c1 [of j] j(1) by force
    with j b show ?thesis by auto
  qed
  moreover have "trace w2 = trace w @ (es1 @ es2)" "filter is_done (es1 @ es2) = []"
    using t1 t2 d1 d2 by simp_all
  moreover have "feature (work w2) = feature (work w)" "work_id (work w2) = work_id (work w)"
    "length (items (work w2)) = length (items (work w))"
    using f1 f2 by (simp_all add: frame_def)
  ultimately show ?thesis
    unfolding frame_def by blast
qed

text \<open>One turn of the loop, and its ends.\<close>

lemma scan_loop_done: "e < cur \<Longrightarrow> scan_loop ev cur e w acc = (w, Inr acc)"
  by (cases acc) (simp add: scan_loop.simps)

lemma scan_loop_stopped: "stopped w \<Longrightarrow> scan_loop ev cur e w acc = (w, Inr acc)"
  by (cases acc) (simp add: scan_loop.simps)

lemma scan_loop_step:
  assumes "cur \<le> e" "\<not> stopped w" "getFaceFeatures ev w cur = (w1, r)"
  shows "scan_loop ev cur e w (fs, ids) =
     (case r of
        Inl x \<Rightarrow> (await_point ev cur w1, Inl x)
      | Inr None \<Rightarrow> scan_loop ev (cur + 1) e (await_point ev cur w1) (fs, ids)
      | Inr (Some f) \<Rightarrow>
          scan_loop ev (cur + 1) e (await_point ev cur w1) (fs @ [f], ids @ [cur]))"
  using assms by (subst scan_loop.simps) (simp split: sum.splits option.splits)

lemma frame_scan_loop:
  "scan_loop ev cur e w acc = (w', r) \<Longrightarrow> frame cur e w w'"
proof (induction "nat (e + 1 - cur)" arbitrary: cur w acc)
  case 0
  then have "e < cur" by simp
  with 0 show ?case by (simp add: scan_loop_done frame_refl)
next
  case (Suc n)
  then have le: "cur \<le> e" by simp
  show ?case
  proof (cases "stopped w")
    case True
    with Suc.prems show ?thesis by (simp add: scan_loop_stopped frame_refl)
  next
    case False
    obtain w1 r1 where g: "getFaceFeatures ev w cur = (w1, r1)"
      by (cases "getFaceFeatures ev w cur")
    obtain fs ids where acc: "acc = (fs, ids)" by (cases acc)
    have f1: "frame cur cur w (await_point ev cur w1)"
      using g by (intro frame_await frame_getFaceFeatures)
    have n: "n = nat (e + 1 - (cur + 1))" using Suc.hyps(2) by simp
    show ?thesis
    proof (cases r1)
      case (Inl x)
      with Suc.prems le False g f1 have "frame cur cur w w'"
        by (simp add: acc scan_loop_step)
      then have "frame cur cur w w'" "frame (cur + 1) e w' w'" by (simp_all add: frame_refl)
      then show ?thesis by (rule frame_trans) (use le in simp_all)
    next
      case (Inr res)
      with Suc.prems le False g
      obtain acc' where "scan_loop ev (cur + 1) e (await_point ev cur w1) acc' = (w', r)"
        by (cases res) (simp_all add: acc scan_loop_step)
      then have "frame (cur + 1) e (await_point ev cur w1) w'"
        using n by (intro Suc.hyps(1))
      with f1 show ?thesis by (rule frame_trans) (use le in simp_all)
    qed
  qed
qed

lemma scan_loop_split:
  "cur \<le> m + 1 \<Longrightarrow> m \<le> e \<Longrightarrow>
     scan_loop ev cur e w acc =
       (case scan_loop ev cur m w acc of
          (wk, Inl x) \<Rightarrow> (wk, Inl x)
        | (wk, Inr a) \<Rightarrow> scan_loop ev (m + 1) e wk a)"
proof (induction "nat (m + 1 - cur)" arbitrary: cur w acc)
  case 0
  then have "m < cur" "cur = m + 1" by simp_all
  then show ?case by (simp add: scan_loop_done)
next
  case (Suc n)
  then have le: "cur \<le> m" "cur \<le> e" by simp_all
  show ?case
  proof (cases "stopped w")
    case True
    then show ?thesis by (simp add: scan_loop_stopped)
  next
    case False
    obtain w1 r1 where g: "getFaceFeatures ev w cur = (w1, r1)"
      by (cases "getFaceFeatures ev w cur")
    obtain fs ids where acc: "acc = (fs, ids)" by (cases acc)
    have n: "n = nat (m + 1 - (cur + 1))" "cur + 1 \<le> m + 1"
      using Suc.hyps(2) le by simp_all
    note ih = Suc.hyps(1) [OF n Suc.prems(2)]
    show ?thesis
      unfolding acc scan_loop_step [OF le(1) False g] scan_loop_step [OF le(2) False g]
      by (simp add: ih split: sum.splits option.splits)
  qed
qed

lemma new_events_append: "trace w' = trace w @ es \<Longrightarrow> new_events w w' = es"
  by (simp add: new_events_def)

text \<open>
  Claim C9, as the code has it. On a slot that is a cache hit (features computed
  earlier, the \<^verbatim>\<open>null\<close> of no face, or nothing) \<open>getFaceFeatures\<close> changes nothing: no
  call of the detector, no message, and it returns what the slot holds. The detector
  is called exactly on a slot with raw image data, and one \<open>update\<close> for that index is
  sent exactly when the slot held raw data and the detector's call returned: a
  rejection of the detector leaves \<open>getFaceFeatures\<close> before the message is sent.
\<close>

theorem getFaceFeatures_cache_hit:
  assumes "getFaceFeatures ev w i = (w', r)"
  shows "(\<not> is_raw (item_at (items (work w)) i) \<longrightarrow>
            w' = w \<and> r = Inr (cached (item_at (items (work w)) i)))
       \<and> detect_calls (new_events w w') =
            (case item_at (items (work w)) i of Raw bytes \<Rightarrow> [bytes] | v \<Rightarrow> [])
       \<and> update_indices (new_events w w') =
            (if is_raw (item_at (items (work w)) i) \<and> r \<noteq> Inl DetectorError then [i] else [])"
  using assms
proof (cases rule: getFaceFeatures_cases)
  case hit
  then show ?thesis
    by (cases "item_at (items (work w)) i") (simp_all add: new_events_def)
next
  case (rejected bytes)
  then show ?thesis by (simp add: new_events_def)
next
  case (resolved bytes v)
  then show ?thesis by (simp add: new_events_def)
qed

text \<open>
  Claim C7. \<open>verify\<close> returns a state for every input: nothing is thrown to the host.
  What it adds to the events ends with the one \<open>done\<close> message, with no other \<open>done\<close>
  before it; and when the loop or the search for the best match threw an error, the
  error was logged and \<open>done\<close> carries \<open>matched\<close> \<^verbatim>\<open>null\<close>.
\<close>

theorem verify_always_done:
  "\<exists>pre m. new_events w (verify ev start end' w)
              = pre @ [Send (Done (work (verify ev start end' w)) m)]
     \<and> filter is_done pre = []
     \<and> (\<forall>x. (snd (scan_loop ev start end' w ([], [])) = Inl x
              \<or> (\<exists>w1 fs ids. scan_loop ev start end' w ([], []) = (w1, Inr (fs, ids))
                    \<and> \<not> stopped w1 \<and> fs \<noteq> []
                    \<and> FaceFeatures_find (FaceFeatures_from (feature (work w1))) (map Obj fs) None
                        = Inl x))
            \<longrightarrow> m = None \<and> LogError x \<in> set pre)"
proof -
  obtain w1 r where s: "scan_loop ev start end' w ([], []) = (w1, r)"
    by (cases "scan_loop ev start end' w ([], [])")
  from frame_scan_loop [OF s] obtain es where t: "trace w1 = trace w @ es"
    and d: "filter is_done es = []"
    unfolding frame_def by blast
  show ?thesis
  proof (cases r)
    case (Inl x)
    then have v: "verify ev start end' w = emit (Send (Done (work w1) None)) (emit (LogError x) w1)"
      by (simp add: verify_def try_block_def s)
    have "new_events w (verify ev start end' w) = (es @ [LogError x]) @ [Send (Done (work w1) None)]"
      unfolding v by (rule new_events_append) (simp add: t)
    moreover have "filter is_done (es @ [LogError x]) = []" using d by simp
    moreover have "work (verify ev start end' w) = work w1" unfolding v by simp
    ultimately show ?thesis using s Inl by auto
  next
    case (Inr acc)
    obtain fs ids where acc: "acc = (fs, ids)" by (cases acc)
    show ?thesis
    proof (cases "\<not> stopped w1 \<and> fs \<noteq> []")
      case False
      then have v: "verify ev start end' w = emit (Send (Done (work w1) None)) w1"
        by (auto simp: verify_def try_block_def s Inr acc)
      have "new_events w (verify ev start end' w) = es @ [Send (Done (work w1) None)]"
        unfolding v by (rule new_events_append) (simp add: t)
      moreover have "work (verify ev start end' w) = work w1" unfolding v by simp
      ultimately show ?thesis using s Inr acc d False by auto
    next
      case True
      show ?thesis
      proof (cases "FaceFeatures_find (FaceFeatures_from (feature (work w1))) (map Obj fs) None")
        case (Inl x)
        with True have v: "verify ev start end' w
            = emit (Send (Done (work w1) None)) (emit (LogError x) w1)"
          by (simp add: verify_def try_block_def s Inr acc)
        have "new_events w (verify ev start end' w) = (es @ [LogError x]) @ [Send (Done (work w1) None)]"
          unfolding v by (rule new_events_append) (simp add: t)
        moreover have "filter is_done (es @ [LogError x]) = []" using d by simp
        moreover have "work (verify ev start end' w) = work w1" unfolding v by simp
        ultimately show ?thesis using s Inr acc Inl by auto
      next
        case found: (Inr res)
        with True obtain m where v: "verify ev start end' w = emit (Send (Done (work w1) m)) w1"
          by (cases res; cases "fst res") (auto simp: verify_def try_block_def s Inr acc)
        have "new_events w (verify ev start end' w) = es @ [Send (Done (work w1) m)]"
          unfolding v by (rule new_events_append) (simp add: t)
        moreover have "work (verify ev start end' w) = work w1" unfolding v by simp
        ultimately show ?thesis using s Inr acc d found by auto
      qed
    qed
  qed
qed

lemma verify_work:
  "scan_loop ev start end' w ([], []) = (w1, r) \<Longrightarrow>
     work (verify ev start end' w) = work w1
     \<and> (\<exists>es m. trace (verify ev start end' w) = trace w1 @ es @ [Send (Done (work w1) m)])"
  by (auto simp: verify_def try_block_def split: sum.splits option.splits prod.splits)

text \<open>
  Claim C8. When \<open>done\<close> is sent, the probe feature of the work is as before, and a
  slot of \<open>work.items\<close> that differs from before has an index between \<open>start\<close> and
  \<open>end\<close>, held raw image data, and was visited: its new content was sent in an
  \<open>update\<close> for that index. Every other slot is unchanged.
\<close>

theorem verify_frame:
  assumes "w' = verify ev start end' w"
  shows "feature (work w') = feature (work w)
       \<and> length (items (work w')) = length (items (work w))
       \<and> (\<forall>j. item_at (items (work w')) j \<noteq> item_at (items (work w)) j \<longrightarrow>
              start \<le> j \<and> j \<le> end' \<and> is_raw (item_at (items (work w)) j)
              \<and> Send (Update j (item_at (items (work w')) j)) \<in> set (new_events w w'))
       \<and> (\<exists>m. last (trace w') = Send (Done (work w') m))"
proof -
  obtain w1 r where s: "scan_loop ev start end' w ([], []) = (w1, r)"
    by (cases "scan_loop ev start end' w ([], [])")
  from verify_work [OF s] assms obtain es m where wk: "work w' = work w1"
    and tr: "trace w' = trace w1 @ es @ [Send (Done (work w1) m)]"
    by auto
  from frame_scan_loop [OF s] obtain es1 where t1: "trace w1 = trace w @ es1"
    and f: "feature (work w1) = feature (work w)"
      "length (items (work w1)) = length (items (work w))"
    and c: "\<And>j. item_at (items (work w1)) j \<noteq> item_at (items (work w)) j \<Longrightarrow>
               start \<le> j \<and> j \<le> end' \<and> is_raw (item_at (items (work w)) j)
               \<and> Send (Update j (item_at (items (work w1)) j)) \<in> set es1"
    unfolding frame_def by blast
  have ne: "new_events w w' = es1 @ es @ [Send (Done (work w1) m)]"
    by (rule new_events_append) (simp add: tr t1)
  show ?thesis
    using f c by (auto simp: wk ne tr)
qed

text \<open>
  Claim C6. Let the loop over the indices before \<open>k\<close> end with the flag raised, so that
  the flag is seen raised when the turn for index \<open>k\<close> starts (or was seen earlier).
  Then \<open>verify\<close> ends in that very state with one more event, the \<open>done\<close> message
  with \<open>matched\<close> \<^verbatim>\<open>null\<close>: no detector call, no message and no change of an item
  comes after; what the earlier turns stored stays; and the slots from \<open>k\<close> on are as
  at the start.
\<close>

theorem verify_cancelled:
  assumes "start \<le> k" and "k \<le> end'"
    and "scan_loop ev start (k - 1) w ([], []) = (wk, Inr acc)"
    and "stopped wk"
  shows "verify ev start end' w = emit (Send (Done (work wk) None)) wk
       \<and> (\<forall>j\<ge>k. item_at (items (work wk)) j = item_at (items (work w)) j)"
proof -
  have "scan_loop ev start end' w ([], []) = scan_loop ev k end' wk acc"
    using scan_loop_split [of start "k - 1" end' ev w "([], [])"] assms(1-3) by simp
  also have "\<dots> = (wk, Inr acc)"
    using assms(4) by (rule scan_loop_stopped)
  finally have "verify ev start end' w = emit (Send (Done (work wk) None)) wk"
    using assms(4) by (cases acc) (simp add: verify_def try_block_def)
  moreover have "item_at (items (work wk)) j = item_at (items (work w)) j" if "k \<le> j" for j
    using frame_scan_loop [OF assms(3)] that unfolding frame_def by force
  ultimately show ?thesis by blast
qed

lemma idle_scan_first:
  "scan_loop stop_env 0 0 idle ([], []) =
     (\<lparr>stopped = True,
       work = sample_work\<lparr>items := [NoFace, Cached [(''lips'', [Fin 0])], Raw [2]]\<rparr>,
       trace = [Detect [1], Send (Update 0 NoFace)]\<rparr>, Inr ([], []))"
  by (simp add: scan_loop.simps idle_def stop_env_def sample_work_def getFaceFeatures_def
      item_at_def getFaces_def Let_def emit_def store_item_def await_point_def)

theorem verify_cancelled_witness:
  "verify stop_env 0 2 idle =
     \<lparr>stopped = True,
      work = sample_work\<lparr>items := [NoFace, Cached [(''lips'', [Fin 0])], Raw [2]]\<rparr>,
      trace = [Detect [1], Send (Update 0 NoFace),
               Send (Done (sample_work\<lparr>items := [NoFace, Cached [(''lips'', [Fin 0])], Raw [2]]\<rparr>) None)]\<rparr>"
  using verify_cancelled [of 0 1 2 stop_env idle _ "([], [])"] idle_scan_first
  by (simp add: emit_def)

theorem getFaceFeatures_cache_hit_witness:
  "getFaceFeatures calm_env idle 1 = (idle, Inr (Some [(''lips'', [Fin 0])]))
   \<and> update_indices (new_events idle (fst (getFaceFeatures calm_env idle 0))) = [0]
   \<and> detect_calls (new_events idle (fst (getFaceFeatures calm_env idle 0))) = [[1]]"
proof -
  have a: "item_at (items (work idle)) 1 = Cached [(''lips'', [Fin 0])]"
    and b: "item_at (items (work idle)) 0 = Raw [1]"
    by (simp_all add: idle_def sample_work_def item_at_def)
  obtain w1 r1 where g1: "getFaceFeatures calm_env idle 1 = (w1, r1)"
    by (cases "getFaceFeatures calm_env idle 1")
  obtain w0 r0 where g0: "getFaceFeatures calm_env idle 0 = (w0, r0)"
    by (cases "getFaceFeatures calm_env idle 0")
  have "r0 \<noteq> Inl DetectorError"
    using g0 by (auto simp: getFaceFeatures_def b getFaces_def calm_env_def Let_def)
  then show ?thesis
    using getFaceFeatures_cache_hit [OF g1] getFaceFeatures_cache_hit [OF g0]
    by (simp add: a b g1 g0)
qed

text \<open>
  Claim C9 as the specification states it fails: slot 2 of the sample work holds raw
  image data and is visited, the detector rejects its image, and the call is left
  with the detector called and no \<open>update\<close> sent.
\<close>

theorem getFaceFeatures_rejected_counterexample:
  "item_at (items (work idle)) 2 = Raw [2]
   \<and> getFaceFeatures calm_env idle 2 = (emit (Detect [2]) idle, Inl DetectorError)
   \<and> detect_calls (new_events idle (fst (getFaceFeatures calm_env idle 2))) = [[2]]
   \<and> update_indices (new_events idle (fst (getFaceFeatures calm_env idle 2))) = []"
proof -
  have slot: "item_at (items (work idle)) 2 = Raw [2]"
    by (simp add: idle_def sample_work_def item_at_def)
  have call: "getFaceFeatures calm_env idle 2 = (emit (Detect [2]) idle, Inl DetectorError)"
    by (simp add: getFaceFeatures_def slot getFaces_def calm_env_def Let_def)
  show ?thesis
    by (simp add: slot call new_events_def)
qed

lemma calm_run:
  "verify calm_env 0 2 idle =
     \<lparr>stopped = False,
      work = sample_work\<lparr>items := [NoFace, Cached [(''lips'', [Fin 0])], Raw [2]]\<rparr>,
      trace = [Detect [1], Send (Update 0 NoFace), Detect [2], LogError DetectorError,
               Send (Done (sample_work\<lparr>items := [NoFace, Cached [(''lips'', [Fin 0])], Raw [2]]\<rparr>) None)]\<rparr>"
  by (simp add: verify_def try_block_def scan_loop.simps idle_def calm_env_def sample_work_def
      getFaceFeatures_def item_at_def getFaces_def Let_def emit_def store_item_def await_point_def)

theorem verify_frame_witness:
  "items (work (verify calm_env 0 2 idle)) = [NoFace, Cached [(''lips'', [Fin 0])], Raw [2]]
   \<and> feature (work (verify calm_env 0 2 idle)) = feature (work idle)
   \<and> last (trace (verify calm_env 0 2 idle)) = Send (Done (work (verify calm_env 0 2 idle)) None)"
proof -
  have "items (work (verify calm_env 0 2 idle)) = [NoFace, Cached [(''lips'', [Fin 0])], Raw [2]]"
    and "last (trace (verify calm_env 0 2 idle)) = Send (Done (work (verify calm_env 0 2 idle)) None)"
    unfolding calm_run by simp_all
  then show ?thesis
    using verify_frame [of "verify calm_env 0 2 idle" calm_env 0 2 idle] by simp
qed

lemma odd_scan:
  "scan_loop calm_env 0 0 odd_idle ([], []) =
     (odd_idle, Inr ([[(''lips'', [Fin 0]), (''leftEye'', [Fin 1])]], [0]))"
  by (simp add: scan_loop.simps odd_idle_def odd_work_def calm_env_def getFaceFeatures_def
      item_at_def await_point_def)

lemma odd_find:
  "FaceFeatures_find (FaceFeatures_from (feature (work odd_idle)))
     (map Obj [[(''lips'', [Fin 0]), (''leftEye'', [Fin 1])]]) None = Inl ShapeMismatch"
  by (simp add: FaceFeatures_find_def FaceFeatures_from_def odd_idle_def odd_work_def)

theorem verify_always_done_witness:
  "new_events odd_idle (verify calm_env 0 0 odd_idle)
     = [LogError ShapeMismatch, Send (Done odd_work None)]"
proof -
  have v: "verify calm_env 0 0 odd_idle
      = emit (Send (Done odd_work None)) (emit (LogError ShapeMismatch) odd_idle)"
    using odd_find by (simp add: verify_def try_block_def odd_scan) (simp add: odd_idle_def)
  from verify_always_done [of odd_idle calm_env 0 0] obtain pre m
    where n: "new_events odd_idle (verify calm_env 0 0 odd_idle)
              = pre @ [Send (Done (work (verify calm_env 0 0 odd_idle)) m)]"
      and e: "\<forall>x. (snd (scan_loop calm_env 0 0 odd_idle ([], [])) = Inl x
              \<or> (\<exists>w1 fs ids. scan_loop calm_env 0 0 odd_idle ([], []) = (w1, Inr (fs, ids))
                    \<and> \<not> stopped w1 \<and> fs \<noteq> []
                    \<and> FaceFeatures_find (FaceFeatures_from (feature (work w1))) (map Obj fs) None
                        = Inl x))
            \<longrightarrow> m = None \<and> LogError x \<in> set pre"
    by blast
  have "\<not> stopped odd_idle" by (simp add: odd_idle_def)
  with e odd_scan odd_find have "m = None" "LogError ShapeMismatch \<in> set pre"
    by auto
  moreover have "new_events odd_idle (verify calm_env 0 0 odd_idle)
     = [LogError ShapeMismatch, Send (Done odd_work None)]"
    unfolding v by (simp add: new_events_def odd_idle_def)
  ultimately show ?thesis
    using n by simp
qed

end
